theory Spec2Isabelle
  imports Main "HOL-Library.Word"
begin

section \<open>Memory, C strings and faults\<close>

text \<open>
  A byte is a \<^typ>\<open>char\<close>.  A read-only \<^verbatim>\<open>const char*\<close> is modelled by the bytes
  from the pointed-to address to the end of its object; \<^verbatim>\<open>p + n\<close> is \<open>drop n\<close>.
  A pointer into the record buffer is an offset into the buffer's byte list, since
  the buffer is written and its cursor is compared.  Sizes (\<^verbatim>\<open>size_t\<close>) are
  natural numbers: every size computed here is bounded by the length of an object
  that is held in memory, so the 64-bit wrap-around is never reached.
\<close>

abbreviation NUL :: char where
  "NUL \<equiv> CHR 0x00"

abbreviation percent :: char where
  "percent \<equiv> CHR ''%''"

abbreviation newline :: char where
  "newline \<equiv> CHR 0x0A"

text \<open>
  What the C++ leaves undefined or aborts on is a value of the model:
  a string function that finds no terminator inside its object, an access outside
  the buffer, the pointer difference taken from a null \<^verbatim>\<open>strstr\<close> result,
  and the failed \<^verbatim>\<open>assert\<close> of \<^verbatim>\<open>WriteLog\<close>.
\<close>

datatype fault = Unterminated | OutOfBounds | NullPlaceholder | AssertionFailed

text \<open>The text of a C string: the bytes before its first terminator.\<close>

definition c_text :: "char list \<Rightarrow> char list" where
  "c_text str = takeWhile (\<lambda>c. c \<noteq> NUL) str"

text \<open>\<^verbatim>\<open>std::strlen\<close>.\<close>

definition strlen :: "char list \<Rightarrow> fault + nat" where
  "strlen str = (if NUL \<in> set str then Inr (length (c_text str)) else Inl Unterminated)"

text \<open>Writing and reading a run of bytes of the buffer at an offset.\<close>

definition store :: "char list \<Rightarrow> nat \<Rightarrow> char list \<Rightarrow> fault + char list" where
  "store mem p bs =
     (if p + length bs \<le> length mem
      then Inr (take p mem @ bs @ drop (p + length bs) mem)
      else Inl OutOfBounds)"

definition load :: "char list \<Rightarrow> nat \<Rightarrow> nat \<Rightarrow> fault + char list" where
  "load mem p n =
     (if p + n \<le> length mem then Inr (take n (drop p mem)) else Inl OutOfBounds)"

text \<open>\<^verbatim>\<open>std::strcpy(dest, src)\<close>: the text of \<open>src\<close> and its terminator.\<close>

definition strcpy :: "char list \<Rightarrow> nat \<Rightarrow> char list \<Rightarrow> fault + char list" where
  "strcpy mem dest src =
     (case strlen src of
        Inl e \<Rightarrow> Inl e
      | Inr l \<Rightarrow> store mem dest (take (l + 1) src))"

text \<open>
  \<^verbatim>\<open>std::strstr(haystack, needle)\<close>: the offset of the first occurrence of the
  needle's text in the haystack's text; \<open>None\<close> is the null pointer.
\<close>

fun find_sub :: "char list \<Rightarrow> char list \<Rightarrow> nat \<Rightarrow> nat option" where
  "find_sub [] n k = (if n = [] then Some k else None)"
| "find_sub (c # cs) n k =
     (if take (length n) (c # cs) = n then Some k else find_sub cs n (Suc k))"

definition strstr :: "char list \<Rightarrow> char list \<Rightarrow> fault + nat option" where
  "strstr haystack needle =
     (case strlen haystack of
        Inl e \<Rightarrow> Inl e
      | Inr hl \<Rightarrow>
          (case strlen needle of
             Inl e \<Rightarrow> Inl e
           | Inr nl \<Rightarrow> Inr (find_sub (take hl haystack) (take nl needle) 0)))"

section \<open>Arguments\<close>

text \<open>
  The argument classes, by the overloads and instances the source selects for them.
  \<^item> \<open>Triv\<close>: a value of a trivially-copyable type that is not an array, a scalar
    or a struct: its type (which selects the stream insertion operator) and its
    object representation, whose length is \<^verbatim>\<open>sizeof(T)\<close>.
  \<^item> \<open>CharPtr\<close>: a \<^verbatim>\<open>const char*\<close>: the bytes it points to.
  \<^item> \<open>CharArray\<close>: a \<^verbatim>\<open>char[N]\<close>, a named array or a string literal: its
    \<open>N\<close> bytes.  \<^verbatim>\<open>WriteLog\<close> takes it by reference to const, so it is sized
    and copied by the \<^verbatim>\<open>const char*\<close> overloads (the array decays, and the
    non-template overload wins the tie with the template), while its element of
    \<^verbatim>\<open>Args...\<close> stays \<^verbatim>\<open>char[N]\<close>.
  \<^item> \<open>StdString\<close>: a \<^verbatim>\<open>std::string\<close>: its \<^verbatim>\<open>length()\<close> characters, any of
    which may be NUL.

  Arrays of another element type are not arguments of the model.  The source has no
  consistent treatment of them: \<^verbatim>\<open>GetArgsSize\<close> sizes the first argument as an
  array and a later one as a pointer, \<^verbatim>\<open>CopyArg\<close> takes its argument by value and
  so copies a pointer, and \<^verbatim>\<open>FormatArg\<close> inserts an address.

  The type list \<^verbatim>\<open>Args...\<close> that \<^verbatim>\<open>WriteLog\<close> deduces from
  \<^verbatim>\<open>const Args&...\<close>, and that instantiates \<^verbatim>\<open>FormatArgs\<close>, is a list of
  \<open>argtype\<close>; \<open>type_of\<close> is the deduction.
\<close>

datatype 'ty arg =
    Triv 'ty "char list"
  | CharPtr "char list"
  | CharArray "char list"
  | StdString "char list"

datatype 'ty argtype =
    TrivT 'ty nat
  | CharPtrT
  | CharArrayT nat
  | StdStringT

fun type_of :: "'ty arg \<Rightarrow> 'ty argtype" where
  "type_of (Triv ty rep) = TrivT ty (length rep)"
| "type_of (CharPtr str) = CharPtrT"
| "type_of (CharArray a) = CharArrayT (length a)"
| "type_of (StdString s) = StdStringT"

text \<open>\<^verbatim>\<open>std::string::c_str()\<close>.\<close>

definition c_str :: "char list \<Rightarrow> char list" where
  "c_str s = s @ [NUL]"

definition sizeof_args :: "'ty arg list \<Rightarrow> nat" where
  "sizeof_args args = length args"

section \<open>CountPlaceholders\<close>

fun CountPlaceholders :: "char list \<Rightarrow> fault + nat" where
  "CountPlaceholders [] = Inl Unterminated"
| "CountPlaceholders (c # formatString) =
     (if c = NUL then Inr 0
      else (case CountPlaceholders formatString of
              Inl e \<Rightarrow> Inl e
            | Inr n \<Rightarrow> Inr ((if c = percent then 1 else 0) + n)))"

section \<open>GetArgsSize\<close>

fun GetArgSize :: "'ty arg \<Rightarrow> fault + nat" where
  "GetArgSize (Triv ty rep) = Inr (length rep)"
| "GetArgSize (CharPtr str) =
     (case strlen str of Inl e \<Rightarrow> Inl e | Inr l \<Rightarrow> Inr (l + 1))"
| "GetArgSize (CharArray a) =
     (case strlen a of Inl e \<Rightarrow> Inl e | Inr l \<Rightarrow> Inr (l + 1))"
| "GetArgSize (StdString s) = Inr (length s + 1)"

fun GetArgsSize :: "'ty arg list \<Rightarrow> fault + nat" where
  "GetArgsSize [] = Inr 0"
| "GetArgsSize (arg # args) =
     (case GetArgSize arg of
        Inl e \<Rightarrow> Inl e
      | Inr a \<Rightarrow>
          (case GetArgsSize args of
             Inl e \<Rightarrow> Inl e
           | Inr b \<Rightarrow> Inr (a + b)))"

section \<open>CopyArgs\<close>

text \<open>
  Each function takes the buffer and the cursor \<^verbatim>\<open>argsData\<close> and returns the
  buffer as written and the cursor the source returns.
\<close>

definition CopyArg_T :: "char list \<Rightarrow> nat \<Rightarrow> char list \<Rightarrow> fault + char list \<times> nat" where
  "CopyArg_T mem argsData rep =
     (case store mem argsData rep of
        Inl e \<Rightarrow> Inl e
      | Inr mem' \<Rightarrow> Inr (mem', argsData + length rep))"

definition CopyArg_cstr :: "char list \<Rightarrow> nat \<Rightarrow> char list \<Rightarrow> fault + char list \<times> nat" where
  "CopyArg_cstr mem argsData str =
     (case strcpy mem argsData str of
        Inl e \<Rightarrow> Inl e
      | Inr mem' \<Rightarrow>
          (case strlen str of
             Inl e \<Rightarrow> Inl e
           | Inr l \<Rightarrow> Inr (mem', argsData + l + 1)))"

definition CopyArg_string :: "char list \<Rightarrow> nat \<Rightarrow> char list \<Rightarrow> fault + char list \<times> nat" where
  "CopyArg_string mem argsData s = CopyArg_cstr mem argsData (c_str s)"

fun CopyArg :: "char list \<Rightarrow> nat \<Rightarrow> 'ty arg \<Rightarrow> fault + char list \<times> nat" where
  "CopyArg mem argsData (Triv ty rep) = CopyArg_T mem argsData rep"
| "CopyArg mem argsData (CharPtr str) = CopyArg_cstr mem argsData str"
| "CopyArg mem argsData (CharArray a) = CopyArg_cstr mem argsData a"
| "CopyArg mem argsData (StdString s) = CopyArg_string mem argsData s"

fun CopyArgs :: "char list \<Rightarrow> nat \<Rightarrow> 'ty arg list \<Rightarrow> fault + char list \<times> nat" where
  "CopyArgs mem argsData [] = Inr (mem, argsData)"
| "CopyArgs mem argsData (arg # args) =
     (case CopyArg mem argsData arg of
        Inl e \<Rightarrow> Inl e
      | Inr (mem', argsData') \<Rightarrow> CopyArgs mem' argsData' args)"

section \<open>Formatting\<close>

text \<open>
  The output stream is the text written to it so far.  The stream insertion operator
  of a trivially-copyable type is not part of the source: it is the parameter
  \<open>ins\<close>, from the type and the object representation to the text inserted.
  \<^verbatim>\<open>FormatArgs\<close> returns nothing in the source; the model returns the stream and
  the buffer cursor that reached the terminating overload.

  The primary template \<^verbatim>\<open>FormatArg<Arg>\<close> has two readings.  For a type that is
  not an array (\<open>FormatArg_T\<close>) it inserts the object at the cursor.  For
  \<^verbatim>\<open>char[N]\<close> (\<open>FormatArg_T_array\<close>) the dereferenced array decays to a pointer
  and is inserted as a C string, up to the first NUL found from the cursor on; the
  cursor returned is \<^verbatim>\<open>argsData + sizeof(char[N])\<close> as computed, and a later read
  through it faults when it lies outside the buffer.
\<close>

definition FormatArg_T ::
  "('ty \<Rightarrow> char list \<Rightarrow> char list) \<Rightarrow> 'ty \<Rightarrow> nat \<Rightarrow> char list \<Rightarrow> char list \<Rightarrow> nat
     \<Rightarrow> fault + char list \<times> nat" where
  "FormatArg_T ins ty n outputStream mem argsData =
     (case load mem argsData n of
        Inl e \<Rightarrow> Inl e
      | Inr rep \<Rightarrow> Inr (outputStream @ ins ty rep, argsData + n))"

definition FormatArg_T_array ::
  "nat \<Rightarrow> char list \<Rightarrow> char list \<Rightarrow> nat \<Rightarrow> fault + char list \<times> nat" where
  "FormatArg_T_array n outputStream mem argsData =
     (case strlen (drop argsData mem) of
        Inl e \<Rightarrow> Inl e
      | Inr l \<Rightarrow> Inr (outputStream @ take l (drop argsData mem), argsData + n))"

definition FormatArg_cstr :: "char list \<Rightarrow> char list \<Rightarrow> nat \<Rightarrow> fault + char list \<times> nat" where
  "FormatArg_cstr outputStream mem argsData =
     (case strlen (drop argsData mem) of
        Inl e \<Rightarrow> Inl e
      | Inr l \<Rightarrow> Inr (outputStream @ take l (drop argsData mem), argsData + l + 1))"

definition FormatArg_string :: "char list \<Rightarrow> char list \<Rightarrow> nat \<Rightarrow> fault + char list \<times> nat" where
  "FormatArg_string outputStream mem argsData = FormatArg_cstr outputStream mem argsData"

fun FormatArg ::
  "('ty \<Rightarrow> char list \<Rightarrow> char list) \<Rightarrow> 'ty argtype \<Rightarrow> char list \<Rightarrow> char list \<Rightarrow> nat
     \<Rightarrow> fault + char list \<times> nat" where
  "FormatArg ins (TrivT ty n) outputStream mem argsData =
     FormatArg_T ins ty n outputStream mem argsData"
| "FormatArg ins CharPtrT outputStream mem argsData = FormatArg_cstr outputStream mem argsData"
| "FormatArg ins (CharArrayT n) outputStream mem argsData =
     FormatArg_T_array n outputStream mem argsData"
| "FormatArg ins StdStringT outputStream mem argsData = FormatArg_string outputStream mem argsData"

fun FormatArgs ::
  "('ty \<Rightarrow> char list \<Rightarrow> char list) \<Rightarrow> 'ty argtype list \<Rightarrow> char list \<Rightarrow> char list
     \<Rightarrow> char list \<Rightarrow> nat \<Rightarrow> fault + char list \<times> nat" where
  "FormatArgs ins [] s format mem buffer =
     (case strlen format of
        Inl e \<Rightarrow> Inl e
      | Inr l \<Rightarrow> Inr (s @ take l format @ [newline], buffer))"
| "FormatArgs ins (Arg # Args) s format mem buffer =
     (case strstr format [percent, NUL] of
        Inl e \<Rightarrow> Inl e
      | Inr None \<Rightarrow> Inl NullPlaceholder
      | Inr (Some placeholder) \<Rightarrow>
          (case FormatArg ins Arg (s @ take placeholder format) mem buffer of
             Inl e \<Rightarrow> Inl e
           | Inr (s', buffer') \<Rightarrow>
               FormatArgs ins Args s' (drop (placeholder + 1) format) mem buffer'))"

section \<open>Records: header, WriteLog and the LOG macro\<close>

text \<open>
  \<^verbatim>\<open>FormatFunction\<close> is a pointer to an instance of \<^verbatim>\<open>FormatArgs\<close>: the
  model stores the instance itself (stream, format, buffer and cursor to result).
\<close>

type_synonym FormatFunction =
  "char list \<Rightarrow> char list \<Rightarrow> char list \<Rightarrow> nat \<Rightarrow> fault + char list \<times> nat"

record Header =
  ArgsSize :: nat
  FormatString :: "char list"
  Formatter :: FormatFunction

text \<open>
  What the source takes from outside \<^verbatim>\<open>logger.h\<close>: whether \<^verbatim>\<open>NDEBUG\<close> is
  defined (it removes the \<^verbatim>\<open>assert\<close>), \<^verbatim>\<open>sizeof(Header)\<close> and the object
  representation of a header (both fixed by the ABI), and \<^verbatim>\<open>GetWriteBuffer\<close>,
  which is declared in the header and defined elsewhere; it returns the bytes of
  the region it hands out.
\<close>

record platform =
  NDEBUG :: bool
  sizeof_Header :: nat
  Header_bytes :: "Header \<Rightarrow> char list"
  GetWriteBuffer :: "int \<Rightarrow> char list"

text \<open>The conversion of the \<^verbatim>\<open>size_t\<close> sum to the \<^verbatim>\<open>int\<close> parameter of \<^verbatim>\<open>GetWriteBuffer\<close>.\<close>

definition int_of_size_t :: "nat \<Rightarrow> int" where
  "int_of_size_t n = sint (word_of_nat n :: 32 word)"

text \<open>
  Whether a call site compiles is decided before anything runs: \<open>Rejected\<close> is a
  call site that does not compile, so that nothing of it runs; \<open>Compiled r\<close> is
  one that does, with \<open>r\<close> what running it does.
\<close>

datatype 'a build = Rejected | Compiled 'a

text \<open>
  \<^verbatim>\<open>WriteLog\<close> returns nothing in the source; the model returns the region as
  it is left, \<^verbatim>\<open>data\<close> being its offset 0.  The instance for no arguments is
  ill-formed: its call \<^verbatim>\<open>GetArgsSize<Args...>(args...)\<close> is then
  \<^verbatim>\<open>GetArgsSize<>()\<close>, a template-id, for which the non-template base case is no
  candidate and the template cannot deduce \<^verbatim>\<open>Arg\<close>.
\<close>

definition WriteLog ::
  "platform \<Rightarrow> ('ty \<Rightarrow> char list \<Rightarrow> char list) \<Rightarrow> char list \<Rightarrow> 'ty arg list
     \<Rightarrow> (fault + char list) build" where
  "WriteLog pf ins formatString args =
     (if args = [] then Rejected
      else Compiled
        (case GetArgsSize args of
           Inl e \<Rightarrow> Inl e
         | Inr argsSize \<Rightarrow>
             (let data = GetWriteBuffer pf (int_of_size_t (argsSize + sizeof_Header pf));
                  argsBuffer = sizeof_Header pf;
                  header = \<lparr>ArgsSize = argsSize, FormatString = formatString,
                            Formatter = FormatArgs ins (map type_of args)\<rparr>
              in (case store data 0 (Header_bytes pf header) of
                    Inl e \<Rightarrow> Inl e
                  | Inr data' \<Rightarrow>
                      (case CopyArgs data' argsBuffer args of
                         Inl e \<Rightarrow> Inl e
                       | Inr (data'', endp) \<Rightarrow>
                           if NDEBUG pf \<or> endp - argsBuffer = argsSize
                           then Inr data''
                           else Inl AssertionFailed)))))"

text \<open>
  The macro: the \<^verbatim>\<open>static_assert\<close>, then the call of \<^verbatim>\<open>WriteLog\<close>.
\<close>

definition LOG ::
  "platform \<Rightarrow> ('ty \<Rightarrow> char list \<Rightarrow> char list) \<Rightarrow> char list \<Rightarrow> 'ty arg list
     \<Rightarrow> (fault + char list) build" where
  "LOG pf ins formatString args =
     (if CountPlaceholders formatString = Inr (sizeof_args args)
      then WriteLog pf ins formatString args
      else Rejected)"

section \<open>What the specification says\<close>

text \<open>
  The supported arguments: a \<^verbatim>\<open>const char*\<close> points to a terminated string, and
  a \<^verbatim>\<open>char\<close> array holds one.
\<close>

fun null_terminated :: "'ty arg \<Rightarrow> bool" where
  "null_terminated (Triv ty rep) = True"
| "null_terminated (CharPtr str) = (NUL \<in> set str)"
| "null_terminated (CharArray a) = (NUL \<in> set a)"
| "null_terminated (StdString s) = True"

text \<open>An owned string whose characters include no NUL.\<close>

fun no_embedded_NUL :: "'ty arg \<Rightarrow> bool" where
  "no_embedded_NUL (Triv ty rep) = True"
| "no_embedded_NUL (CharPtr str) = True"
| "no_embedded_NUL (CharArray a) = True"
| "no_embedded_NUL (StdString s) = (NUL \<notin> set s)"

text \<open>
  A \<^verbatim>\<open>char\<close> array that is as long as its text and the terminator, as a string
  literal with no NUL of its own is.
\<close>

fun exact_width :: "'ty arg \<Rightarrow> bool" where
  "exact_width (Triv ty rep) = True"
| "exact_width (CharPtr str) = True"
| "exact_width (CharArray a) = (length a = length (c_text a) + 1)"
| "exact_width (StdString s) = True"

text \<open>
  The size rule of the specification: \<^verbatim>\<open>sizeof(type)\<close> for a trivially-copyable
  value, length + 1 for a text value.
\<close>

fun spec_size :: "'ty arg \<Rightarrow> nat" where
  "spec_size (Triv ty rep) = length rep"
| "spec_size (CharPtr str) = length (c_text str) + 1"
| "spec_size (CharArray a) = length (c_text a) + 1"
| "spec_size (StdString s) = length s + 1"

text \<open>
  Formatting the arguments in place: the text each argument inserts into a stream,
  substituted left to right at the placeholders of the format string, what is left
  of the format string copied once the arguments are used up, then the line end.
\<close>

fun arg_text :: "('ty \<Rightarrow> char list \<Rightarrow> char list) \<Rightarrow> 'ty arg \<Rightarrow> char list" where
  "arg_text ins (Triv ty rep) = ins ty rep"
| "arg_text ins (CharPtr str) = c_text str"
| "arg_text ins (CharArray a) = c_text a"
| "arg_text ins (StdString s) = s"

fun substitute :: "char list \<Rightarrow> char list list \<Rightarrow> char list" where
  "substitute [] ts = []"
| "substitute (c # cs) [] = c # cs"
| "substitute (c # cs) (t # ts) =
     (if c = percent then t @ substitute cs ts else c # substitute cs (t # ts))"

definition format_direct ::
  "('ty \<Rightarrow> char list \<Rightarrow> char list) \<Rightarrow> char list \<Rightarrow> 'ty arg list \<Rightarrow> char list" where
  "format_direct ins format args =
     substitute (c_text format) (map (arg_text ins) args) @ [newline]"

text \<open>The bytes \<^verbatim>\<open>CopyArg\<close> writes for an argument, and the text read back from them.\<close>

fun encoding :: "'ty arg \<Rightarrow> char list" where
  "encoding (Triv ty rep) = rep"
| "encoding (CharPtr str) = c_text str @ [NUL]"
| "encoding (CharArray a) = c_text a @ [NUL]"
| "encoding (StdString s) = c_text s @ [NUL]"

fun decoded_text :: "('ty \<Rightarrow> char list \<Rightarrow> char list) \<Rightarrow> 'ty arg \<Rightarrow> char list" where
  "decoded_text ins (Triv ty rep) = ins ty rep"
| "decoded_text ins (CharPtr str) = c_text str"
| "decoded_text ins (CharArray a) = c_text a"
| "decoded_text ins (StdString s) = c_text s"

text \<open>
  Two scalar types for concrete runs: \<^verbatim>\<open>char\<close>, inserted as the character, and
  \<^verbatim>\<open>bool\<close>, inserted as 0 or 1; both have size 1.
\<close>

datatype scalar = CharT | BoolT

definition ins_bool :: "char list \<Rightarrow> char list" where
  "ins_bool rep = (if rep = [NUL] then ''0'' else ''1'')"

fun ins_scalar :: "scalar \<Rightarrow> char list \<Rightarrow> char list" where
  "ins_scalar CharT rep = rep"
| "ins_scalar BoolT rep = ins_bool rep"

text \<open>
  A platform for concrete runs: a 24-byte header (three 8-byte fields), its bytes
  shown as \<^verbatim>\<open>H\<close>, and a channel that hands out zeroed regions.
\<close>

definition demo_platform :: "bool \<Rightarrow> platform" where
  "demo_platform ndebug =
     \<lparr>NDEBUG = ndebug, sizeof_Header = 24,
      Header_bytes = (\<lambda>h. replicate 24 (CHR ''H'')),
      GetWriteBuffer = (\<lambda>size. replicate (nat size) NUL)\<rparr>"

section \<open>C strings\<close>

lemma c_text_append_NUL: "NUL \<notin> set s \<Longrightarrow> c_text (s @ NUL # rest) = s"
  by (induction s) (auto simp: c_text_def)

lemma strlen_append_NUL: "NUL \<notin> set s \<Longrightarrow> strlen (s @ NUL # rest) = Inr (length s)"
  by (simp add: strlen_def c_text_append_NUL)

lemma NUL_notin_c_text: "NUL \<notin> set (c_text str)"
  unfolding c_text_def by (induction str) auto

lemma c_text_split:
  "NUL \<in> set str \<Longrightarrow> str = c_text str @ NUL # drop (length (c_text str) + 1) str"
  unfolding c_text_def by (induction str) auto

lemma take_c_text: "take (length (c_text str)) str = c_text str"
  unfolding c_text_def by (induction str) auto

lemma take_Suc_c_text:
  "NUL \<in> set str \<Longrightarrow> take (Suc (length (c_text str))) str = c_text str @ [NUL]"
  unfolding c_text_def by (induction str) auto

lemma c_text_c_str: "c_text (c_str s) = c_text s"
  unfolding c_text_def c_str_def by (induction s) auto

lemma c_text_no_NUL: "NUL \<notin> set s \<Longrightarrow> c_text s = s"
  unfolding c_text_def by (induction s) auto

lemma CountPlaceholders_eq:
  "CountPlaceholders str =
     (if NUL \<in> set str then Inr (count_list (c_text str) percent) else Inl Unterminated)"
  by (induction str) (auto simp: c_text_def)

lemma find_sub_single:
  "find_sub h [x] k =
     (if x \<in> set h then Some (k + length (takeWhile (\<lambda>c. c \<noteq> x) h)) else None)"
  by (induction h arbitrary: k) auto

lemma c_text_needle: "c_text [percent, NUL] = [percent]"
  by (simp add: c_text_def)

lemma strstr_percent:
  "strstr format [percent, NUL] =
     (if NUL \<in> set format
      then Inr (if percent \<in> set (c_text format)
                then Some (length (takeWhile (\<lambda>c. c \<noteq> percent) (c_text format)))
                else None)
      else Inl Unterminated)"
  by (simp add: strstr_def strlen_def take_c_text find_sub_single c_text_needle)


lemma substitute_Nil: "substitute cs [] = cs"
  by (cases cs) auto

lemma substitute_literal:
  "percent \<notin> set lit \<Longrightarrow>
   substitute (lit @ percent # cs) (t # ts) = lit @ t @ substitute cs ts"
  by (induction lit) auto

lemma strstr_literal:
  assumes "NUL \<notin> set lit" "percent \<notin> set lit" "NUL \<notin> set cs"
  shows "strstr (lit @ percent # cs @ NUL # rest) [percent, NUL] = Inr (Some (length lit))"
proof -
  have nul: "NUL \<notin> set (lit @ percent # cs)"
    using assms by simp
  have "c_text ((lit @ percent # cs) @ NUL # rest) = lit @ percent # cs"
    by (rule c_text_append_NUL [OF nul])
  moreover have "takeWhile (\<lambda>c. c \<noteq> percent) (lit @ percent # cs) = lit"
    using assms(2) by (induction lit) auto
  ultimately show ?thesis
    by (simp add: strstr_percent)
qed

lemma store_at_end:
  "p = length pre \<Longrightarrow> length old = length bs \<Longrightarrow>
   store (pre @ old @ post) p bs = Inr (pre @ bs @ post)"
  by (simp add: store_def)

lemma load_at_end:
  "p = length pre \<Longrightarrow> n = length bs \<Longrightarrow> load (pre @ bs @ post) p n = Inr bs"
  by (simp add: load_def)

lemma CopyArg_cstr_eq:
  assumes "NUL \<in> set str"
  shows "CopyArg_cstr mem p str =
    (case store mem p (c_text str @ [NUL]) of
       Inl e \<Rightarrow> Inl e
     | Inr mem' \<Rightarrow> Inr (mem', p + length (c_text str @ [NUL])))"
  using assms
  by (simp add: CopyArg_cstr_def strcpy_def strlen_def take_Suc_c_text split: sum.splits)

lemma CopyArg_eq:
  assumes "null_terminated a"
  shows "CopyArg mem p a =
    (case store mem p (encoding a) of
       Inl e \<Rightarrow> Inl e
     | Inr mem' \<Rightarrow> Inr (mem', p + length (encoding a)))"
proof (cases a)
  case (Triv ty rep)
  then show ?thesis by (simp add: CopyArg_T_def cong: sum.case_cong)
next
  case (CharPtr str)
  then show ?thesis using assms by (simp add: CopyArg_cstr_eq cong: sum.case_cong)
next
  case (CharArray a)
  then show ?thesis using assms by (simp add: CopyArg_cstr_eq cong: sum.case_cong)
next
  case (StdString s)
  have "NUL \<in> set (c_str s)" by (simp add: c_str_def)
  then show ?thesis
    using StdString
    by (simp add: CopyArg_string_def CopyArg_cstr_eq c_text_c_str cong: sum.case_cong)
qed

lemma CopyArgs_eq:
  assumes "list_all null_terminated args"
    and "length old = length (concat (map encoding args))"
  shows "CopyArgs (pre @ old @ post) (length pre) args =
    Inr (pre @ concat (map encoding args) @ post,
         length pre + length (concat (map encoding args)))"
  using assms
proof (induction args arbitrary: pre old)
  case Nil
  then show ?case by simp
next
  case (Cons a args)
  define e where "e = encoding a"
  define E where "E = concat (map encoding args)"
  from Cons.prems(2) have len: "length old = length e + length E"
    by (simp add: e_def E_def)
  define old1 where "old1 = take (length e) old"
  define old2 where "old2 = drop (length e) old"
  have old: "old = old1 @ old2" and l1: "length old1 = length e" and l2: "length old2 = length E"
    using len by (simp_all add: old1_def old2_def)
  have st: "store (pre @ old1 @ (old2 @ post)) (length pre) e = Inr (pre @ e @ (old2 @ post))"
    by (rule store_at_end) (simp_all add: l1)
  have step: "CopyArg (pre @ old @ post) (length pre) a
                = Inr ((pre @ e) @ old2 @ post, length (pre @ e))"
    using Cons.prems(1) st by (simp add: CopyArg_eq old e_def)
  have "CopyArgs ((pre @ e) @ old2 @ post) (length (pre @ e)) args =
          Inr ((pre @ e) @ concat (map encoding args) @ post,
               length (pre @ e) + length (concat (map encoding args)))"
    using Cons.prems(1) l2 by (intro Cons.IH) (simp_all add: E_def)
  with step show ?case
    by (simp add: e_def)
qed

lemma FormatArg_encoded:
  assumes "exact_width a"
  shows "FormatArg ins (type_of a) s (pre @ encoding a @ post) (length pre) =
     Inr (s @ decoded_text ins a, length pre + length (encoding a))"
proof -
  have cstr: "FormatArg_cstr s (pre @ (t @ [NUL]) @ post) (length pre)
                = Inr (s @ t, length pre + length (t @ [NUL]))" if "NUL \<notin> set t" for t
    using that by (simp add: FormatArg_cstr_def strlen_append_NUL)
  show ?thesis
  proof (cases a)
    case (Triv ty rep)
    then show ?thesis by (simp add: FormatArg_T_def load_at_end)
  next
    case (CharPtr str)
    then show ?thesis using cstr [OF NUL_notin_c_text] by simp
  next
    case (CharArray arr)
    have "strlen (c_text arr @ NUL # post) = Inr (length (c_text arr))"
      by (rule strlen_append_NUL [OF NUL_notin_c_text])
    then show ?thesis
      using CharArray assms by (simp add: FormatArg_T_array_def)
  next
    case (StdString str)
    then show ?thesis using cstr [OF NUL_notin_c_text] by (simp add: FormatArg_string_def)
  qed
qed

lemma FormatArgs_encoded:
  assumes "NUL \<notin> set body" and "length args \<le> count_list body percent"
    and "list_all exact_width args"
  shows "FormatArgs ins (map type_of args) s (body @ NUL # rest)
           (pre @ concat (map encoding args) @ post) (length pre) =
         Inr (s @ substitute body (map (decoded_text ins) args) @ [newline],
              length pre + length (concat (map encoding args)))"
  using assms
proof (induction args arbitrary: s body pre)
  case Nil
  then show ?case by (simp add: strlen_append_NUL substitute_Nil)
next
  case (Cons a args)
  from Cons.prems(2) have "percent \<in> set body"
    by (metis count_list_0_iff length_Cons not_less_eq_eq le_zero_eq nat.distinct(1))
  then obtain lit cs where body: "body = lit @ percent # cs" and lit: "percent \<notin> set lit"
    by (meson split_list_first)
  from Cons.prems(1) body have nul: "NUL \<notin> set lit" "NUL \<notin> set cs"
    by simp_all
  have cnt: "length args \<le> count_list cs percent"
    using Cons.prems(2) lit by (simp add: body)
  have find: "strstr (body @ NUL # rest) [percent, NUL] = Inr (Some (length lit))"
    using strstr_literal [OF nul(1) lit nul(2)] by (simp add: body)
  from Cons.prems(3) have exact: "exact_width a" "list_all exact_width args"
    by simp_all
  have arg: "FormatArg ins (type_of a) (s @ lit)
               (pre @ encoding a @ (concat (map encoding args) @ post)) (length pre)
             = Inr ((s @ lit) @ decoded_text ins a, length (pre @ encoding a))"
    by (simp add: FormatArg_encoded [OF exact(1)])
  have rest: "FormatArgs ins (map type_of args) ((s @ lit) @ decoded_text ins a)
                (cs @ NUL # rest) ((pre @ encoding a) @ concat (map encoding args) @ post)
                (length (pre @ encoding a))
              = Inr (((s @ lit) @ decoded_text ins a)
                       @ substitute cs (map (decoded_text ins) args) @ [newline],
                     length (pre @ encoding a) + length (concat (map encoding args)))"
    by (rule Cons.IH [OF nul(2) cnt exact(2)])
  show ?case
    using find arg rest by (simp add: body substitute_literal [OF lit])
qed

section \<open>Placeholders\<close>

lemma FormatArg_no_percent:
  assumes "FormatArg ins Arg s mem buffer = Inr (s', buffer')"
    and "percent \<notin> set mem" and "\<And>ty rep. percent \<notin> set (ins ty rep)"
  shows "\<exists>t. s' = s @ t \<and> percent \<notin> set t"
proof (cases Arg)
  case (TrivT ty n)
  then show ?thesis
    using assms(1,3) by (auto simp: FormatArg_T_def split: sum.splits)
next
  case CharPtrT
  have "percent \<notin> set (take l (drop buffer mem))" for l
    using assms(2) by (meson in_set_dropD in_set_takeD)
  then show ?thesis
    using assms(1) CharPtrT by (auto simp: FormatArg_cstr_def split: sum.splits)
next
  case (CharArrayT n)
  have "percent \<notin> set (take l (drop buffer mem))" for l
    using assms(2) by (meson in_set_dropD in_set_takeD)
  then show ?thesis
    using assms(1) CharArrayT by (auto simp: FormatArg_T_array_def split: sum.splits)
next
  case StdStringT
  have "percent \<notin> set (take l (drop buffer mem))" for l
    using assms(2) by (meson in_set_dropD in_set_takeD)
  then show ?thesis
    using assms(1) StdStringT
    by (auto simp: FormatArg_string_def FormatArg_cstr_def split: sum.splits)
qed

lemma CountPlaceholders_append_NUL:
  "NUL \<notin> set body \<Longrightarrow> CountPlaceholders (body @ NUL # rest) = Inr (count_list body percent)"
  by (simp add: CountPlaceholders_eq c_text_append_NUL)

lemma CountPlaceholders_InrD:
  assumes "CountPlaceholders format = Inr n"
  obtains body rest where "format = body @ NUL # rest" "NUL \<notin> set body"
    "count_list body percent = n"
proof -
  from assms have nul: "NUL \<in> set format" and n: "count_list (c_text format) percent = n"
    by (auto simp: CountPlaceholders_eq split: if_splits)
  show thesis
    using that [OF c_text_split [OF nul] NUL_notin_c_text n] .
qed

lemma FormatArgs_no_literal_percent:
  assumes "CountPlaceholders format = Inr (length Args)"
    and "FormatArgs ins Args s format mem buffer = Inr (s', buffer')"
    and "percent \<notin> set mem" and "\<And>ty rep. percent \<notin> set (ins ty rep)"
  shows "\<exists>t. s' = s @ t \<and> percent \<notin> set t"
  using assms(1,2)
proof (induction Args arbitrary: s format buffer)
  case Nil
  from Nil(1) obtain body rest where f: "format = body @ NUL # rest" "NUL \<notin> set body"
    and c: "count_list body percent = 0"
    by (auto elim: CountPlaceholders_InrD)
  from c have "percent \<notin> set body" by (simp add: count_list_0_iff)
  with Nil(2) f show ?case
    by (auto simp: strlen_append_NUL)
next
  case (Cons Arg Args)
  from Cons.prems(1) obtain body rest where f: "format = body @ NUL # rest" "NUL \<notin> set body"
    and c: "count_list body percent = Suc (length Args)"
    by (auto elim: CountPlaceholders_InrD)
  from c have "percent \<in> set body"
    by (metis count_list_0_iff nat.distinct(1))
  then obtain lit cs where body: "body = lit @ percent # cs" and lit: "percent \<notin> set lit"
    by (meson split_list_first)
  from f(2) body have nul: "NUL \<notin> set lit" "NUL \<notin> set cs" by simp_all
  have find: "strstr format [percent, NUL] = Inr (Some (length lit))"
    using strstr_literal [OF nul(1) lit nul(2)] by (simp add: f body)
  from Cons.prems(2) find obtain s1 b1 where
    arg: "FormatArg ins Arg (s @ lit) mem buffer = Inr (s1, b1)" and
    tail: "FormatArgs ins Args s1 (cs @ NUL # rest) mem b1 = Inr (s', buffer')"
    by (auto simp: f body split: sum.splits)
  from FormatArg_no_percent [OF arg assms(3,4)] obtain u where
    u: "s1 = (s @ lit) @ u" "percent \<notin> set u" by blast
  have "CountPlaceholders (cs @ NUL # rest) = Inr (length Args)"
    using c lit nul(2) by (simp add: CountPlaceholders_append_NUL body)
  from Cons.IH [OF this tail] obtain t where t: "s' = s1 @ t" "percent \<notin> set t" by blast
  show ?case
    using u t lit by (intro exI [of _ "lit @ u @ t"]) simp
qed

text \<open>
  Claim C9.  \<^verbatim>\<open>CountPlaceholders\<close> counts every \<^verbatim>\<open>%\<close> before the first NUL of the
  format string and knows no escape: whatever follows the terminator is not read,
  \<^verbatim>\<open>"%%"\<close> counts as two placeholders, and a format string cannot emit a percent
  sign of its own.  The last part is stated for a call the macro accepts (as many
  placeholders as arguments): if neither the payload nor an inserted value holds a
  percent sign, the text \<^verbatim>\<open>FormatArgs\<close> appends to the stream holds none.
\<close>
theorem CountPlaceholders_counts_every_percent:
  "(NUL \<notin> set body \<longrightarrow>
      CountPlaceholders (body @ NUL # rest) = Inr (count_list body percent)) \<and>
   CountPlaceholders [percent, percent, NUL] = Inr 2 \<and>
   (CountPlaceholders format = Inr (length Args) \<and>
    FormatArgs ins Args s format mem buffer = Inr (s', buffer') \<and>
    percent \<notin> set mem \<and> (\<forall>ty rep. percent \<notin> set (ins ty rep)) \<longrightarrow>
      (\<exists>t. s' = s @ t \<and> percent \<notin> set t))"
proof (intro conjI impI)
  assume "NUL \<notin> set body"
  then show "CountPlaceholders (body @ NUL # rest) = Inr (count_list body percent)"
    by (rule CountPlaceholders_append_NUL)
next
  show "CountPlaceholders [percent, percent, NUL] = Inr 2"
    by simp
next
  assume a: "CountPlaceholders format = Inr (length Args) \<and>
    FormatArgs ins Args s format mem buffer = Inr (s', buffer') \<and>
    percent \<notin> set mem \<and> (\<forall>ty rep. percent \<notin> set (ins ty rep))"
  then show "\<exists>t. s' = s @ t \<and> percent \<notin> set t"
    using FormatArgs_no_literal_percent [of format Args ins s mem buffer s' buffer']
    by blast
qed

theorem CountPlaceholders_counts_every_percent_witness:
  "CountPlaceholders (''100%% of %'' @ NUL # ''%%%'') = Inr 3 \<and>
   CountPlaceholders [percent, percent, NUL] = Inr 2 \<and>
   FormatArgs (\<lambda>ty::scalar. ins_bool) [CharPtrT, TrivT BoolT 1] ''> '' (''a%b%c'' @ [NUL])
      (''xy'' @ [NUL, CHR 0x01]) 0 = Inr (''> axyb1c'' @ [newline], 4) \<and>
   (\<exists>t. ''> axyb1c'' @ [newline] = ''> '' @ t \<and> percent \<notin> set t)"
proof -
  note inst = CountPlaceholders_counts_every_percent
    [of "''100%% of %''" "''%%%''" "''a%b%c'' @ [NUL]" "[CharPtrT, TrivT BoolT 1]"
      "\<lambda>ty::scalar. ins_bool" "''> ''" "''xy'' @ [NUL, CHR 0x01]" 0
      "''> axyb1c'' @ [newline]" 4]
  have terminated: "NUL \<notin> set ''100%% of %''"
    by simp
  have run: "FormatArgs (\<lambda>ty::scalar. ins_bool) [CharPtrT, TrivT BoolT 1] ''> ''
      (''a%b%c'' @ [NUL]) (''xy'' @ [NUL, CHR 0x01]) 0 = Inr (''> axyb1c'' @ [newline], 4)"
    by (simp add: strstr_def strlen_def c_text_def FormatArg_cstr_def FormatArg_T_def
        load_def ins_bool_def)
  have gate: "CountPlaceholders (''a%b%c'' @ [NUL]) = Inr (length [CharPtrT, TrivT BoolT 1])"
    by simp
  have payload: "percent \<notin> set (''xy'' @ [NUL, CHR 0x01])"
    by simp
  have ins: "\<forall>ty rep. percent \<notin> set (ins_bool rep)"
    by (simp add: ins_bool_def)
  from inst terminated have "CountPlaceholders (''100%% of %'' @ NUL # ''%%%'')
      = Inr (count_list ''100%% of %'' percent)"
    by blast
  moreover from inst have "CountPlaceholders [percent, percent, NUL] = Inr 2"
    by blast
  moreover from inst run gate payload ins
  have "\<exists>t. ''> axyb1c'' @ [newline] = ''> '' @ t \<and> percent \<notin> set t"
    by blast
  ultimately show ?thesis
    using run by simp
qed

text \<open>
  Claim C6.  With no arguments, \<^verbatim>\<open>FormatArgs\<close> appends the format string as it is
  and one line terminator.  The result is the same for every payload buffer and
  cursor, the empty buffer included: no payload byte is read, and the cursor is
  left where it was.
\<close>
theorem FormatArgs_no_arguments:
  "NUL \<notin> set body \<Longrightarrow>
   FormatArgs ins [] s (body @ NUL # rest) mem buffer = Inr (s @ body @ [newline], buffer)"
  by (simp add: strlen_append_NUL)

theorem FormatArgs_no_arguments_witness:
  "FormatArgs ins_scalar [] ''> '' (''heartbeat'' @ NUL # ''junk'') [] 0
     = Inr (''> heartbeat'' @ [newline], 0)"
proof -
  have "NUL \<notin> set ''heartbeat''" by simp
  from FormatArgs_no_arguments [OF this, of ins_scalar "''> ''" "''junk''" "[]" 0]
  show ?thesis by simp
qed



section \<open>Sizes\<close>

lemma GetArgSize_spec_size: "null_terminated a \<Longrightarrow> GetArgSize a = Inr (spec_size a)"
  by (cases a) (simp_all add: strlen_def)

lemma GetArgsSize_spec_size:
  "list_all null_terminated args \<Longrightarrow> GetArgsSize args = Inr (sum_list (map spec_size args))"
  by (induction args) (simp_all add: GetArgSize_spec_size)

text \<open>
  Claim C4.  \<^verbatim>\<open>GetArgsSize\<close> returns 0 for the empty list and, for a list of
  supported arguments, the sum in call order of \<^verbatim>\<open>sizeof(type)\<close> for each
  trivially-copyable value and length + 1 for each text value (the bytes before the
  terminator of a \<^verbatim>\<open>const char*\<close> or a \<^verbatim>\<open>char\<close> array, \<^verbatim>\<open>length()\<close> of a
  \<^verbatim>\<open>std::string\<close>); it
  always returns a size, never a fault.
\<close>
theorem GetArgsSize_sums_the_sizes:
  "GetArgsSize ([] :: 'ty arg list) = Inr 0 \<and>
   GetArgSize (Triv ty rep :: 'ty arg) = Inr (length rep) \<and>
   GetArgSize (StdString str :: 'ty arg) = Inr (length str + 1) \<and>
   (NUL \<notin> set str \<longrightarrow> GetArgSize (CharPtr (str @ NUL # rest) :: 'ty arg) = Inr (length str + 1)) \<and>
   (NUL \<notin> set str \<longrightarrow> GetArgSize (CharArray (str @ NUL # rest) :: 'ty arg) = Inr (length str + 1)) \<and>
   (list_all null_terminated args \<longrightarrow>
      GetArgsSize (args :: 'ty arg list) = Inr (sum_list (map spec_size args)))"
  by (simp add: GetArgsSize_spec_size strlen_append_NUL)

theorem GetArgsSize_sums_the_sizes_witness:
  "GetArgsSize ([] :: scalar arg list) = Inr 0 \<and>
   GetArgSize (Triv BoolT [CHR 0x01]) = Inr 1 \<and>
   GetArgSize (StdString ''bob'' :: scalar arg) = Inr 4 \<and>
   GetArgSize (CharPtr (''bob'' @ NUL # ''xyz'') :: scalar arg) = Inr 4 \<and>
   GetArgSize (CharArray (''bob'' @ NUL # ''xyz'') :: scalar arg) = Inr 4 \<and>
   GetArgsSize [CharPtr (''alice'' @ [NUL]), Triv CharT ''7'', StdString ''bob'',
       CharArray (''carol'' @ [NUL, NUL, NUL])] = Inr 17"
proof -
  note inst = GetArgsSize_sums_the_sizes [of BoolT "[CHR 0x01]" "''bob''" "''xyz''"
      "[CharPtr (''alice'' @ [NUL]), Triv CharT ''7'', StdString ''bob'',
        CharArray (''carol'' @ [NUL, NUL, NUL])]"]
  have terminated: "NUL \<notin> set ''bob''"
    by simp
  have supported:
    "list_all null_terminated [CharPtr (''alice'' @ [NUL]), Triv CharT ''7'', StdString ''bob'',
        CharArray (''carol'' @ [NUL, NUL, NUL])]"
    by simp
  have sizes: "sum_list (map spec_size
      [CharPtr (''alice'' @ [NUL]), Triv CharT ''7'', StdString ''bob'',
        CharArray (''carol'' @ [NUL, NUL, NUL]) :: scalar arg]) = 17"
    by (simp add: c_text_def)
  from inst terminated supported sizes show ?thesis
    by simp
qed

section \<open>The macro\<close>

text \<open>
  Claim C5.  A call through the macro compiles, and so can create a record, only
  when \<^verbatim>\<open>CountPlaceholders\<close> of the format string equals the number of
  arguments; a call site with a mismatch is rejected, and then nothing of it runs.
  What a compiled call does at run time is what its \<^verbatim>\<open>WriteLog\<close> instance does,
  which makes no such check.
\<close>
theorem LOG_checks_the_count_when_compiled:
  "(LOG pf ins formatString args = Compiled r \<longrightarrow>
      CountPlaceholders formatString = Inr (length args) \<and>
      WriteLog pf ins formatString args = Compiled r \<and> args \<noteq> []) \<and>
   (CountPlaceholders formatString \<noteq> Inr (length args) \<longrightarrow>
      LOG pf ins formatString args = Rejected)"
  by (auto simp: LOG_def WriteLog_def sizeof_args_def split: if_splits)

lemma demo_region:
  "WriteLog (demo_platform nd) ins_scalar (''x%'' @ [NUL]) [Triv CharT ''7'']
     = Compiled (Inr (replicate 24 (CHR ''H'') @ ''7''))"
  by (simp add: WriteLog_def demo_platform_def int_of_size_t_def store_def CopyArg_T_def)

theorem LOG_checks_the_count_when_compiled_witness:
  "LOG (demo_platform False) ins_scalar (''x%'' @ [NUL]) [Triv CharT ''7'', Triv CharT ''8'']
     = Rejected \<and>
   LOG (demo_platform False) ins_scalar (''x%'' @ [NUL]) [Triv CharT ''7'']
     = Compiled (Inr (replicate 24 (CHR ''H'') @ ''7'')) \<and>
   CountPlaceholders (''x%'' @ [NUL]) = Inr (length [Triv CharT ''7''])"
proof -
  have mismatch:
    "CountPlaceholders (''x%'' @ [NUL]) \<noteq> Inr (length [Triv CharT ''7'', Triv CharT ''8''])"
    by simp
  from LOG_checks_the_count_when_compiled
    [of "demo_platform False" ins_scalar "''x%'' @ [NUL]" "[Triv CharT ''7'', Triv CharT ''8'']"
      undefined] mismatch
  have rejected:
    "LOG (demo_platform False) ins_scalar (''x%'' @ [NUL]) [Triv CharT ''7'', Triv CharT ''8'']
       = Rejected"
    by blast
  have compiled: "LOG (demo_platform False) ins_scalar (''x%'' @ [NUL]) [Triv CharT ''7'']
     = Compiled (Inr (replicate 24 (CHR ''H'') @ ''7''))"
    using demo_region [of False] by (simp add: LOG_def sizeof_args_def)
  from LOG_checks_the_count_when_compiled
    [of "demo_platform False" ins_scalar "''x%'' @ [NUL]" "[Triv CharT ''7'']"
      "Inr (replicate 24 (CHR ''H'') @ ''7'')"] compiled
  have "CountPlaceholders (''x%'' @ [NUL]) = Inr (length [Triv CharT ''7''])"
    by blast
  with rejected compiled show ?thesis
    by blast
qed

section \<open>The placeholder is found\<close>

lemma FormatArg_not_NullPlaceholder: "FormatArg ins Arg s mem buffer \<noteq> Inl NullPlaceholder"
  by (cases Arg)
    (auto simp: FormatArg_T_def FormatArg_T_array_def FormatArg_cstr_def FormatArg_string_def
      load_def strlen_def split: sum.splits if_splits)

lemma placeholder_found:
  assumes "CountPlaceholders format = Inr n" and "0 < n"
  shows "\<exists>lit cs rest. format = lit @ percent # cs @ NUL # rest \<and>
    NUL \<notin> set lit \<and> percent \<notin> set lit \<and> NUL \<notin> set cs \<and> count_list cs percent = n - 1"
proof -
  from assms(1) obtain body rest where f: "format = body @ NUL # rest" "NUL \<notin> set body"
    and c: "count_list body percent = n"
    by (auto elim: CountPlaceholders_InrD)
  from c assms(2) have "percent \<in> set body"
    by (metis count_list_0_iff less_numeral_extra(3))
  then obtain lit cs where body: "body = lit @ percent # cs" and lit: "percent \<notin> set lit"
    by (meson split_list_first)
  from f(2) body have nul: "NUL \<notin> set lit" "NUL \<notin> set cs" by simp_all
  have "count_list cs percent = n - 1"
    using c lit by (simp add: body)
  with f body lit nul show ?thesis
    by (intro exI [of _ lit] exI [of _ cs] exI [of _ rest]) simp
qed

lemma FormatArgs_not_NullPlaceholder:
  assumes "CountPlaceholders format = Inr n" and "length Args \<le> n"
  shows "FormatArgs ins Args s format mem buffer \<noteq> Inl NullPlaceholder"
  using assms
proof (induction Args arbitrary: s format buffer n)
  case Nil
  then show ?case
    by (auto simp: strlen_def split: if_splits)
next
  case (Cons Arg Args)
  from Cons.prems have "0 < n" by simp
  from placeholder_found [OF Cons.prems(1) this] obtain lit cs rest where
    f: "format = lit @ percent # cs @ NUL # rest" and
    nul: "NUL \<notin> set lit" "NUL \<notin> set cs" and lit: "percent \<notin> set lit" and
    c: "count_list cs percent = n - 1"
    by blast
  have find: "strstr format [percent, NUL] = Inr (Some (length lit))"
    using strstr_literal [OF nul(1) lit nul(2)] by (simp add: f)
  have next_count: "CountPlaceholders (cs @ NUL # rest) = Inr (n - 1)"
    using c nul(2) by (simp add: CountPlaceholders_append_NUL)
  have le: "length Args \<le> n - 1"
    using Cons.prems(2) by simp
  show ?case
  proof (cases "FormatArg ins Arg (s @ lit) mem buffer")
    case (Inl e)
    with FormatArg_not_NullPlaceholder [of ins Arg "s @ lit" mem buffer]
    have "e \<noteq> NullPlaceholder" by auto
    with Inl find show ?thesis by (simp add: f)
  next
    case (Inr r)
    obtain s1 b1 where r: "r = (s1, b1)" by (cases r)
    from Cons.IH [OF next_count le, of s1 b1] Inr find show ?thesis
      by (simp add: f r)
  qed
qed

text \<open>
  Claim C10.  In the recursive step of \<^verbatim>\<open>FormatArgs\<close>, when the format string
  holds at least as many \<^verbatim>\<open>%\<close> as there are arguments left, \<^verbatim>\<open>strstr\<close>
  returns a placeholder inside the string, so the literal prefix of
  \<^verbatim>\<open>placeholder - format\<close> bytes is well defined (and holds no \<^verbatim>\<open>%\<close>); the
  call after it is under the same precondition, and the whole run never takes the
  null branch.
\<close>
theorem FormatArgs_finds_a_placeholder:
  assumes "CountPlaceholders format = Inr n" and "length (Arg # Args) \<le> n"
  shows "\<exists>placeholder l.
           strstr format [percent, NUL] = Inr (Some placeholder) \<and>
           strlen format = Inr l \<and> placeholder < l \<and>
           percent \<notin> set (take placeholder format) \<and>
           CountPlaceholders (drop (placeholder + 1) format) = Inr (n - 1) \<and>
           length Args \<le> n - 1 \<and>
           FormatArgs ins (Arg # Args) s format mem buffer \<noteq> Inl NullPlaceholder"
proof -
  from assms(2) have "0 < n" by simp
  from placeholder_found [OF assms(1) this] obtain lit cs rest where
    f: "format = lit @ percent # cs @ NUL # rest" and
    nul: "NUL \<notin> set lit" "NUL \<notin> set cs" and lit: "percent \<notin> set lit" and
    c: "count_list cs percent = n - 1"
    by blast
  have find: "strstr format [percent, NUL] = Inr (Some (length lit))"
    using strstr_literal [OF nul(1) lit nul(2)] by (simp add: f)
  have "NUL \<notin> set (lit @ percent # cs)"
    using nul by simp
  from strlen_append_NUL [OF this, of rest]
  have len: "strlen format = Inr (length lit + 1 + length cs)"
    by (simp add: f)
  have next_count: "CountPlaceholders (drop (length lit + 1) format) = Inr (n - 1)"
    using c nul(2) by (simp add: f CountPlaceholders_append_NUL)
  have never: "FormatArgs ins (Arg # Args) s format mem buffer \<noteq> Inl NullPlaceholder"
    by (rule FormatArgs_not_NullPlaceholder [OF assms])
  show ?thesis
    using find len next_count never assms(2) lit
    by (intro exI [of _ "length lit"] exI [of _ "length lit + 1 + length cs"]) (simp add: f)
qed

theorem FormatArgs_finds_a_placeholder_witness:
  "strstr (''a%b%c'' @ [NUL]) [percent, NUL] = Inr (Some 1) \<and>
   strlen (''a%b%c'' @ [NUL]) = Inr 5 \<and>
   CountPlaceholders (''b%c'' @ [NUL]) = Inr 1 \<and>
   FormatArgs ins_scalar [CharPtrT, TrivT BoolT 1] ''> '' (''a%b%c'' @ [NUL])
      (''xy'' @ [NUL, CHR 0x01]) 0 \<noteq> Inl NullPlaceholder"
proof -
  have count: "CountPlaceholders (''a%b%c'' @ [NUL]) = Inr 2"
    by simp
  have enough: "length [CharPtrT, TrivT BoolT 1] \<le> (2::nat)"
    by simp
  from FormatArgs_finds_a_placeholder [OF count enough, of ins_scalar "''> ''"
      "''xy'' @ [NUL, CHR 0x01]" 0]
  obtain placeholder l where
    p: "strstr (''a%b%c'' @ [NUL]) [percent, NUL] = Inr (Some placeholder)"
      "strlen (''a%b%c'' @ [NUL]) = Inr l"
      "CountPlaceholders (drop (placeholder + 1) (''a%b%c'' @ [NUL])) = Inr (2 - 1)"
      "FormatArgs ins_scalar [CharPtrT, TrivT BoolT 1] ''> '' (''a%b%c'' @ [NUL])
          (''xy'' @ [NUL, CHR 0x01]) 0 \<noteq> Inl NullPlaceholder"
    by blast
  have "strstr (''a%b%c'' @ [NUL]) [percent, NUL] = Inr (Some 1)"
    by (simp add: strstr_def strlen_def c_text_def)
  with p(1) have "placeholder = 1" by simp
  moreover have "strlen (''a%b%c'' @ [NUL]) = Inr 5"
    by (simp add: strlen_def c_text_def)
  ultimately show ?thesis
    using p by simp
qed

section \<open>Serialising and formatting\<close>

lemma length_c_text_le: "length (c_text s) \<le> length s"
  by (simp add: c_text_def length_takeWhile_le)

lemma length_encoding_le: "length (encoding a) \<le> spec_size a"
  by (cases a) (simp_all add: length_c_text_le)

lemma length_encoding: "no_embedded_NUL a \<Longrightarrow> length (encoding a) = spec_size a"
  by (cases a) (simp_all add: c_text_no_NUL)

lemma length_encodings_le:
  "length (concat (map encoding args)) \<le> sum_list (map spec_size args)"
  by (induction args) (simp_all add: length_encoding_le add_mono)

lemma length_encodings:
  "list_all no_embedded_NUL args \<Longrightarrow>
   length (concat (map encoding args)) = sum_list (map spec_size args)"
  by (induction args) (simp_all add: length_encoding)

lemma decoded_text_eq: "no_embedded_NUL a \<Longrightarrow> decoded_text ins a = arg_text ins a"
  by (cases a) (simp_all add: c_text_no_NUL)

lemma map_decoded_text_eq:
  "list_all no_embedded_NUL args \<Longrightarrow> map (decoded_text ins) args = map (arg_text ins) args"
  by (induction args) (simp_all add: decoded_text_eq)

lemma CopyArgs_region:
  assumes "list_all null_terminated args"
    and "argsData + length (concat (map encoding args)) \<le> length mem"
  shows "CopyArgs mem argsData args =
    Inr (take argsData mem @ concat (map encoding args)
           @ drop (argsData + length (concat (map encoding args))) mem,
         argsData + length (concat (map encoding args)))"
proof -
  define E where "E = concat (map encoding args)"
  define pre where "pre = take argsData mem"
  define old where "old = take (length E) (drop argsData mem)"
  define post where "post = drop (argsData + length E) mem"
  have mem: "mem = pre @ old @ post"
    by (simp add: pre_def old_def post_def add.commute [of argsData] flip: drop_drop)
  have lp: "length pre = argsData" and lo: "length old = length E"
    using assms(2) by (simp_all add: pre_def old_def E_def)
  from CopyArgs_eq [OF assms(1), of old pre post] lo
  have "CopyArgs (pre @ old @ post) (length pre) args = Inr (pre @ E @ post, length pre + length E)"
    by (simp add: E_def)
  then show ?thesis
    unfolding mem [symmetric] lp by (simp add: pre_def post_def E_def)
qed

text \<open>
  Where the record does give the text of formatting in place: terminated text,
  \<^verbatim>\<open>std::string\<close>s that hold no NUL, \<^verbatim>\<open>char\<close> arrays no longer than their text
  and its terminator, and at least as many placeholders as arguments.  Then
  \<^verbatim>\<open>CopyArgs\<close> and the chain of \<^verbatim>\<open>FormatArg\<close> calls both end at the start plus
  the size \<^verbatim>\<open>GetArgsSize\<close> computed.
\<close>

lemma CopyArgs_then_FormatArgs:
  assumes "list_all null_terminated args" and "list_all no_embedded_NUL args"
    and "list_all exact_width args"
    and "CountPlaceholders format = Inr n" and "length args \<le> n"
    and "GetArgsSize args = Inr argsSize" and "argsData + argsSize \<le> length mem"
  shows "\<exists>mem'. CopyArgs mem argsData args = Inr (mem', argsData + argsSize) \<and>
           FormatArgs ins (map type_of args) s format mem' argsData
             = Inr (s @ format_direct ins format args, argsData + argsSize)"
proof -
  define E where "E = concat (map encoding args)"
  from assms(1,6) have size: "argsSize = sum_list (map spec_size args)"
    by (simp add: GetArgsSize_spec_size)
  with assms(2) have lenE: "length E = argsSize"
    by (simp add: E_def length_encodings)
  define pre where "pre = take argsData mem"
  define post where "post = drop (argsData + argsSize) mem"
  have lp: "length pre = argsData"
    using assms(7) by (simp add: pre_def)
  have copy: "CopyArgs mem argsData args = Inr (pre @ E @ post, argsData + argsSize)"
    using CopyArgs_region [OF assms(1), of argsData mem] assms(7) lenE
    by (simp add: E_def pre_def post_def)
  from assms(4) obtain body rest where f: "format = body @ NUL # rest" "NUL \<notin> set body"
    and c: "count_list body percent = n"
    by (auto elim: CountPlaceholders_InrD)
  have "FormatArgs ins (map type_of args) s (body @ NUL # rest) (pre @ E @ post) (length pre)
          = Inr (s @ substitute body (map (decoded_text ins) args) @ [newline],
                 length pre + length E)"
    unfolding E_def using f(2) assms(3,5) c by (intro FormatArgs_encoded) simp_all
  then have "FormatArgs ins (map type_of args) s format (pre @ E @ post) argsData
          = Inr (s @ format_direct ins format args, argsData + argsSize)"
    using assms(2) f
    by (simp add: lp lenE format_direct_def c_text_append_NUL map_decoded_text_eq)
  with copy show ?thesis
    by blast
qed

lemma replicate_2: "replicate 2 x = [x, x]"
  by (simp add: numeral_2_eq_2)

text \<open>
  Claim C1 at two argument lists the source accepts.

  At \<^verbatim>\<open>std::string("a\0b", 3)\<close> under the format \<^verbatim>\<open>"%"\<close>: inserted into a stream
  the string gives its three characters, while \<^verbatim>\<open>CopyArgs\<close> copies it through
  \<^verbatim>\<open>c_str()\<close> up to the first NUL, so that the record holds, and formats to, the
  single character before it.

  At \<^verbatim>\<open>char name[8] = "alice"\<close> followed by the character 7 under \<^verbatim>\<open>"% %"\<close>:
  the array is sized and copied as a C string, 6 bytes, but its decoder is the
  primary template at \<^verbatim>\<open>char[8]\<close>, which moves the cursor by 8; the next
  argument is then read past the 7 bytes of the payload, where formatting in place
  gives \<^verbatim>\<open>alice 7\<close>.
\<close>

theorem record_text_differs_from_direct_text:
  "CopyArgs [NUL, NUL, NUL, NUL] 0 [StdString [CHR ''a'', NUL, CHR ''b''] :: scalar arg]
     = Inr ([CHR ''a'', NUL, NUL, NUL], 2) \<and>
   FormatArgs ins_scalar (map type_of [StdString [CHR ''a'', NUL, CHR ''b''] :: scalar arg]) []
       [percent, NUL] [CHR ''a'', NUL, NUL, NUL] 0
     = Inr ([CHR ''a'', newline], 2) \<and>
   format_direct ins_scalar [percent, NUL] [StdString [CHR ''a'', NUL, CHR ''b'']]
     = [CHR ''a'', NUL, CHR ''b'', newline] \<and>
   GetArgsSize [CharArray (''alice'' @ [NUL, NUL, NUL]), Triv CharT ''7''] = Inr 7 \<and>
   CopyArgs [NUL, NUL, NUL, NUL, NUL, NUL, NUL] 0
       [CharArray (''alice'' @ [NUL, NUL, NUL]), Triv CharT ''7'']
     = Inr (''alice'' @ [NUL, CHR ''7''], 7) \<and>
   map type_of [CharArray (''alice'' @ [NUL, NUL, NUL]), Triv CharT ''7'']
     = [CharArrayT 8, TrivT CharT 1] \<and>
   FormatArgs ins_scalar [CharArrayT 8, TrivT CharT 1] [] (''% %'' @ [NUL])
       (''alice'' @ [NUL, CHR ''7'']) 0
     = Inl OutOfBounds \<and>
   format_direct ins_scalar (''% %'' @ [NUL])
       [CharArray (''alice'' @ [NUL, NUL, NUL]), Triv CharT ''7'']
     = ''alice 7'' @ [newline]"
  by (simp add: CopyArg_string_def CopyArg_cstr_def CopyArg_T_def c_str_def strcpy_def
      strlen_def c_text_def store_def load_def strstr_def FormatArg_string_def
      FormatArg_cstr_def FormatArg_T_def FormatArg_T_array_def format_direct_def)

text \<open>
  Claim C2 at \<^verbatim>\<open>std::string("a\0b", 3)\<close> followed by the character 7:
  \<^verbatim>\<open>GetArgsSize\<close> predicts 5 bytes (\<^verbatim>\<open>length() + 1\<close>, and 1), \<^verbatim>\<open>CopyArgs\<close>
  stops after 3 (\<^verbatim>\<open>strlen(c_str()) + 1\<close>, and 1), and the chain of
  \<^verbatim>\<open>FormatArg\<close> calls ends at 3 as well, two bytes short of the predicted size.
\<close>
theorem predicted_size_differs_from_cursors:
  "GetArgsSize [StdString [CHR ''a'', NUL, CHR ''b''], Triv CharT ''7''] = Inr 5 \<and>
   CopyArgs (replicate 5 NUL) 0 [StdString [CHR ''a'', NUL, CHR ''b''], Triv CharT ''7'']
     = Inr ([CHR ''a'', NUL, CHR ''7'', NUL, NUL], 3) \<and>
   FormatArgs ins_scalar [StdStringT, TrivT CharT 1] [] [percent, percent, NUL]
       [CHR ''a'', NUL, CHR ''7'', NUL, NUL] 0
     = Inr ([CHR ''a'', CHR ''7'', newline], 3)"
  by (simp add: CopyArg_string_def CopyArg_cstr_def CopyArg_T_def c_str_def strcpy_def
      strlen_def c_text_def store_def load_def strstr_def FormatArg_string_def
      FormatArg_cstr_def FormatArg_T_def replicate_2)

text \<open>
  Claim C3 at \<^verbatim>\<open>std::string("a\0b", 3)\<close>: the computed size is 4, the cursor
  returned by \<^verbatim>\<open>CopyArgs\<close> is 2 bytes after \<^verbatim>\<open>argsBuffer\<close>, so the
  \<^verbatim>\<open>assert\<close> of \<^verbatim>\<open>WriteLog\<close> fails; with \<^verbatim>\<open>NDEBUG\<close> the record is left
  with a size of 4 and two bytes that were never written.
\<close>
theorem WriteLog_assertion_fails:
  "GetArgsSize [StdString [CHR ''a'', NUL, CHR ''b''] :: scalar arg] = Inr 4 \<and>
   CopyArgs (replicate 24 (CHR ''H'') @ replicate 4 NUL) 24
       [StdString [CHR ''a'', NUL, CHR ''b''] :: scalar arg]
     = Inr (replicate 24 (CHR ''H'') @ [CHR ''a'', NUL, NUL, NUL], 26) \<and>
   WriteLog (demo_platform False) ins_scalar [percent, NUL] [StdString [CHR ''a'', NUL, CHR ''b'']]
     = Compiled (Inl AssertionFailed) \<and>
   WriteLog (demo_platform True) ins_scalar [percent, NUL] [StdString [CHR ''a'', NUL, CHR ''b'']]
     = Compiled (Inr (replicate 24 (CHR ''H'') @ [CHR ''a'', NUL, NUL, NUL]))"
  by (simp add: WriteLog_def demo_platform_def int_of_size_t_def CopyArg_string_def
      CopyArg_cstr_def c_str_def strcpy_def strlen_def c_text_def store_def replicate_2)


section \<open>The record\<close>

lemma store_header:
  assumes "length hb \<le> length data"
  shows "store data 0 hb = Inr (hb @ drop (length hb) data)"
  using assms by (simp add: store_def)

text \<open>
  Claim C8.  For every call of \<^verbatim>\<open>WriteLog\<close> that compiles (one with arguments),
  when \<^verbatim>\<open>GetWriteBuffer\<close> hands out a region of the size asked for, the region
  \<^verbatim>\<open>WriteLog\<close> leaves is the object representation of the header
  \<^verbatim>\<open>{ArgsSize, FormatString, Formatter}\<close> in its first \<^verbatim>\<open>sizeof(Header)\<close> bytes,
  followed at once by the payload: exactly what \<^verbatim>\<open>CopyArgs\<close> writes into the rest
  of the region taken alone.  The only other outcome is the failed \<^verbatim>\<open>assert\<close>,
  which, for the argument classes of the model, does not occur when no
  \<^verbatim>\<open>std::string\<close> argument holds a NUL.  The formatter stored is \<^verbatim>\<open>FormatArgs\<close> at the types \<^verbatim>\<open>WriteLog\<close> deduced; for a
  call the macro admits whose \<^verbatim>\<open>char\<close> arrays are no longer than their text and
  its terminator, the formatter and format string of the header, run at offset
  \<^verbatim>\<open>sizeof(Header)\<close> of the region, give the line.
\<close>
theorem WriteLog_header_precedes_payload:
  assumes "args \<noteq> []" and "list_all null_terminated args"
    and "GetArgsSize args = Inr argsSize"
    and "data = GetWriteBuffer pf (int_of_size_t (argsSize + sizeof_Header pf))"
    and "length data = argsSize + sizeof_Header pf"
    and "header = \<lparr>ArgsSize = argsSize, FormatString = formatString,
                    Formatter = FormatArgs ins (map type_of args)\<rparr>"
    and "length (Header_bytes pf header) = sizeof_Header pf"
  shows "\<exists>payload endp.
           CopyArgs (drop (sizeof_Header pf) data) 0 args = Inr (payload, endp) \<and>
           length payload = argsSize \<and> endp \<le> argsSize \<and>
           (list_all no_embedded_NUL args \<longrightarrow> endp = argsSize) \<and>
           WriteLog pf ins formatString args =
             Compiled (if NDEBUG pf \<or> endp = argsSize
                       then Inr (Header_bytes pf header @ payload)
                       else Inl AssertionFailed) \<and>
           (list_all no_embedded_NUL args \<and> list_all exact_width args \<and>
            CountPlaceholders formatString = Inr n \<and> length args \<le> n \<longrightarrow>
              Formatter header s (FormatString header) (Header_bytes pf header @ payload)
                  (sizeof_Header pf)
                = Inr (s @ format_direct ins formatString args, sizeof_Header pf + argsSize))"
proof -
  define hb where "hb = Header_bytes pf header"
  define E where "E = concat (map encoding args)"
  define old where "old = drop (sizeof_Header pf) data"
  have lhb: "length hb = sizeof_Header pf"
    using assms(7) by (simp add: hb_def)
  have lold: "length old = argsSize"
    using assms(5) by (simp add: old_def)
  from assms(2,3) have size: "argsSize = sum_list (map spec_size args)"
    by (simp add: GetArgsSize_spec_size)
  have leE: "length E \<le> argsSize"
    unfolding E_def size by (rule length_encodings_le)
  have eqE: "length E = argsSize" if "list_all no_embedded_NUL args"
    unfolding E_def size using that by (rule length_encodings)
  define payload where "payload = E @ drop (length E) old"
  have lpay: "length payload = argsSize"
    using leE lold by (simp add: payload_def)
  have alone: "CopyArgs old 0 args = Inr (payload, length E)"
    using CopyArgs_region [OF assms(2), of 0 old] leE lold
    by (simp add: E_def payload_def)
  have hdr: "store data 0 hb = Inr (hb @ old)"
    using store_header [of hb data] assms(5) lhb by (simp add: old_def)
  have copy: "CopyArgs (hb @ old) (sizeof_Header pf) args
                = Inr (hb @ payload, sizeof_Header pf + length E)"
    using CopyArgs_region [OF assms(2), of "sizeof_Header pf" "hb @ old"] leE lold lhb
    by (simp add: E_def payload_def)
  have whole: "WriteLog pf ins formatString args =
      Compiled (if NDEBUG pf \<or> length E = argsSize then Inr (hb @ payload)
                else Inl AssertionFailed)"
    using assms(1,3) hdr copy
    by (simp add: WriteLog_def Let_def assms(4) [symmetric] assms(6) [symmetric] hb_def [symmetric])
  have dispatch: "Formatter header s (FormatString header) (hb @ payload) (sizeof_Header pf)
      = Inr (s @ format_direct ins formatString args, sizeof_Header pf + argsSize)"
    if ne: "list_all no_embedded_NUL args" and ex: "list_all exact_width args"
      and cnt: "CountPlaceholders formatString = Inr n" and le: "length args \<le> n"
  proof -
    from cnt obtain body rest where f: "formatString = body @ NUL # rest" "NUL \<notin> set body"
      and c: "count_list body percent = n"
      by (auto elim: CountPlaceholders_InrD)
    have pay: "payload = E"
      using eqE [OF ne] lold by (simp add: payload_def)
    have "FormatArgs ins (map type_of args) s (body @ NUL # rest)
            (hb @ concat (map encoding args) @ []) (length hb)
          = Inr (s @ substitute body (map (decoded_text ins) args) @ [newline],
                 length hb + length (concat (map encoding args)))"
      using f(2) le c ex by (intro FormatArgs_encoded) simp_all
    then show ?thesis
      using ne f eqE [OF ne]
      by (simp add: assms(6) pay E_def lhb format_direct_def c_text_append_NUL
          map_decoded_text_eq)
  qed
  show ?thesis
    using alone lpay leE eqE whole dispatch
    by (intro exI [of _ payload] exI [of _ "length E"])
      (simp add: old_def [symmetric] hb_def [symmetric])
qed

theorem WriteLog_header_precedes_payload_witness:
  "CopyArgs (replicate 7 NUL) 0 [CharArray (''alice'' @ [NUL]), Triv CharT ''7'']
     = Inr (''alice'' @ [NUL, CHR ''7''], 7) \<and>
   WriteLog (demo_platform False) ins_scalar (''user % logged in at %'' @ [NUL])
       [CharArray (''alice'' @ [NUL]), Triv CharT ''7'']
     = Compiled (Inr (replicate 24 (CHR ''H'') @ ''alice'' @ [NUL, CHR ''7''])) \<and>
   FormatArgs ins_scalar (map type_of [CharArray (''alice'' @ [NUL]), Triv CharT ''7'']) ''> ''
       (''user % logged in at %'' @ [NUL])
       (replicate 24 (CHR ''H'') @ ''alice'' @ [NUL, CHR ''7'']) 24
     = Inr (''> user alice logged in at 7'' @ [newline], 31)"
proof -
  let ?args = "[CharArray (''alice'' @ [NUL]), Triv CharT ''7'']"
  let ?format = "''user % logged in at %'' @ [NUL]"
  let ?pf = "demo_platform False"
  let ?header = "\<lparr>ArgsSize = 7, FormatString = ?format,
                   Formatter = FormatArgs ins_scalar (map type_of ?args)\<rparr>"
  have some: "?args \<noteq> []"
    by simp
  have supported: "list_all null_terminated ?args"
    by simp
  have size: "GetArgsSize ?args = Inr 7"
    by (simp add: strlen_def c_text_def)
  have region: "replicate 31 NUL = GetWriteBuffer ?pf (int_of_size_t (7 + sizeof_Header ?pf))"
    by (simp add: demo_platform_def int_of_size_t_def)
  have region_size: "length (replicate 31 NUL) = 7 + sizeof_Header ?pf"
    by (simp add: demo_platform_def)
  have header_size: "length (Header_bytes ?pf ?header) = sizeof_Header ?pf"
    by (simp add: demo_platform_def)
  have gate: "list_all no_embedded_NUL ?args \<and> list_all exact_width ?args \<and>
      CountPlaceholders ?format = Inr 2 \<and> length ?args \<le> (2::nat)"
    by (simp add: c_text_def)
  have direct: "format_direct ins_scalar ?format ?args = ''user alice logged in at 7'' @ [newline]"
    by (simp add: format_direct_def c_text_def)
  have alone: "CopyArgs (replicate 7 NUL) 0 ?args = Inr (''alice'' @ [NUL, CHR ''7''], 7)"
    by (simp add: CopyArg_cstr_def CopyArg_T_def strcpy_def strlen_def c_text_def store_def)
  from WriteLog_header_precedes_payload
    [OF some supported size region region_size refl header_size, of 2 "''> ''"]
  obtain payload endp where
    p: "CopyArgs (drop (sizeof_Header ?pf) (replicate 31 NUL)) 0 ?args = Inr (payload, endp)"
      "list_all no_embedded_NUL ?args \<longrightarrow> endp = 7"
      "WriteLog ?pf ins_scalar ?format ?args =
         Compiled (if NDEBUG ?pf \<or> endp = 7 then Inr (Header_bytes ?pf ?header @ payload)
                   else Inl AssertionFailed)"
      "list_all no_embedded_NUL ?args \<and> list_all exact_width ?args \<and>
       CountPlaceholders ?format = Inr 2 \<and> length ?args \<le> (2::nat) \<longrightarrow>
         Formatter ?header ''> '' (FormatString ?header) (Header_bytes ?pf ?header @ payload)
             (sizeof_Header ?pf)
           = Inr (''> '' @ format_direct ins_scalar ?format ?args, sizeof_Header ?pf + 7)"
    by blast
  from p(1) alone have payload: "payload = ''alice'' @ [NUL, CHR ''7'']"
    by (simp add: demo_platform_def)
  from p(2) gate have endp: "endp = 7"
    by blast
  from p(3) have "WriteLog ?pf ins_scalar ?format ?args
      = Compiled (Inr (replicate 24 (CHR ''H'') @ ''alice'' @ [NUL, CHR ''7'']))"
    by (simp add: endp payload demo_platform_def)
  moreover from p(4) gate have
    "Formatter ?header ''> '' (FormatString ?header) (Header_bytes ?pf ?header @ payload)
         (sizeof_Header ?pf)
       = Inr (''> '' @ format_direct ins_scalar ?format ?args, sizeof_Header ?pf + 7)"
    by blast
  then have "FormatArgs ins_scalar (map type_of ?args) ''> '' ?format
       (replicate 24 (CHR ''H'') @ ''alice'' @ [NUL, CHR ''7'']) 24
     = Inr (''> user alice logged in at 7'' @ [newline], 31)"
    by (simp add: payload direct [simplified] demo_platform_def)
  ultimately show ?thesis
    using alone by simp
qed

end
